theory Spec2Isabelle
  imports Main "HOL-Library.Multiset" "HOL-Library.Product_Lexorder"
begin

section \<open>Data model of the trade service\<close>

text \<open>
  The trade service (package \<open>trade\<close>) keeps no state of its own: everything lives in
  PostgreSQL tables. The embedding makes the tables a record that every operation takes
  and returns. Identifiers are Go \<open>int\<close>s that are only compared, so they are \<open>int\<close>;
  timestamps are abstract integers (a larger value is a later instant).

  A row of table \<open>trades\<close> (\<open>create.sql\<close>): \<open>id SERIAL PRIMARY KEY\<close>, the two
  parties, the status (a \<open>VARCHAR\<close>, written by the code as one of \<open>pending\<close>,
  \<open>accepted\<close>, \<open>declined\<close>), the two \<open>INT[]\<close> columns, \<open>traded_at\<close> (nullable) and
  \<open>created_at\<close>.
\<close>

record trade =
  trade_id :: int
  user_id_from :: int
  user_id_to :: int
  status :: string
  user_from_user_car_ids :: "int list"
  user_to_user_car_ids :: "int list"
  traded_at :: "int option"
  created_at :: int

text \<open>The columns of \<open>user_subscriptions\<close> that \<open>HasActiveSubscription\<close> reads
  (\<open>user_id\<close> is \<open>UNIQUE\<close>, so the table is a map from the user).\<close>

record user_subscription =
  is_active :: "bool option"
  subscription_end :: "int option"

record feed_entry =
  feed_user_id :: int
  feed_type :: string
  reference_id :: int
  related_user_id :: "int option"

text \<open>
  The database. \<open>trades\<close> is the list of rows in the order of insertion, \<open>trades_id_seq\<close>
  the next value of the \<open>SERIAL\<close> sequence. Of \<open>user_cars\<close> the service reads and writes
  only \<open>id\<close> (the primary key) and \<open>user_id\<close>: a map from the car instance to its owner.
\<close>

record db =
  trades :: "trade list"
  trades_id_seq :: int
  user_cars :: "int \<rightharpoonup> int"
  user_subscriptions :: "int \<rightharpoonup> user_subscription"
  feed :: "feed_entry list"

subsection \<open>Failures of the store\<close>

text \<open>
  Every database call of the source has an \<open>if err != nil\<close> branch. Which calls fail is
  decided by the environment: \<open>fails\<close> answers for each call site (for the loops, for
  each iteration and side). \<open>now\<close> is the value of \<open>NOW()\<close> / \<open>CURRENT_TIMESTAMP\<close>.
  A violated constraint of the schema (a foreign key, \<open>CHECK (user_id >= 0)\<close>) is such
  a failure of the call. The logger that the functions take from the context is always
  there and is left out.
\<close>

datatype side = FromSide | ToSide

datatype db_call =
    CheckSubscriptionFrom
  | CheckSubscriptionTo
  | BeginTx
  | CommitTx
  | CountExistingTrades
  | VerifyOwnershipQuery side nat
  | InsertTrade
  | SelectTradeDetails
  | UpdateCarOwner side nat
  | UpdateTradeStatus
  | DeclineRelatedTrades
  | InsertFeed
  | DeclineTradeExec
  | CountUserTrades
  | SelectUserTrades
  | ScanTradeRow nat
  | IterateTradeRows

record env =
  now :: int
  fails :: "db_call \<Rightarrow> bool"

text \<open>
  The errors are the messages of the source's \<open>fmt.Errorf\<close> calls; a constructor with an
  argument of type \<open>error\<close> is a \<open>%w\<close> wrapper. \<open>DriverError\<close> is an error of the driver
  that the source returns as it is.
\<close>

datatype error =
    DriverError
  | FailedToCheckFromUserSubscription error
  | TradingRequiresActiveSubscription
  | FailedToCheckToUserSubscription error
  | CannotTradeWithUserWithoutSubscription
  | FailedToBeginTransaction
  | FailedToCheckExistingTrades
  | FailedToVerifyFromUserCarOwnership error
  | FailedToVerifyToUserCarOwnership error
  | FailedToVerifyCarOwnership
  | UserDoesNotOwnCar int int
  | FailedToCreateTrade
  | FailedToGetTradeDetails
  | UserIsNotRecipient
  | TradeIsNotPending
  | FailedToUpdateCarOwnerships error
  | FailedToUpdateFromUserCars error
  | FailedToUpdateToUserCars error
  | FailedToUpdateCarOwnership
  | FailedToUpdateTradeStatus
  | FailedToAutoDeclineRelatedTrades error
  | FailedToDeclineRelatedTrades
  | FailedToCreateFeedEntry error
  | CreatingFeedItem
  | FailedToDeclineTrade
  | NoPendingTradeFound int
  | FailedToGetTotalTradeCount
  | FailedToFetchTrades
  | FailedToScanTradeRow
  | ErrorIteratingTradeRows

section \<open>The helpers of the service\<close>

text \<open>
  \<open>verifyCarOwnership\<close>: for each car in turn, \<open>SELECT COUNT(*) FROM user_cars WHERE id = $1
  AND user_id = $2\<close>; the first query that fails, or the first count of zero, ends the loop
  with an error. \<open>qfails i\<close> tells whether the query of iteration \<open>i\<close> fails.
\<close>

fun verifyCarOwnership :: "(nat \<Rightarrow> bool) \<Rightarrow> (int \<rightharpoonup> int) \<Rightarrow> int \<Rightarrow> int list \<Rightarrow> error + unit" where
  "verifyCarOwnership qfails cars userID [] = Inr ()"
| "verifyCarOwnership qfails cars userID (carID # rest) =
     (if qfails 0 then Inl FailedToVerifyCarOwnership
      else if cars carID \<noteq> Some userID then Inl (UserDoesNotOwnCar userID carID)
      else verifyCarOwnership (qfails \<circ> Suc) cars userID rest)"

text \<open>
  \<open>updateOwnership\<close>: for each car in turn, \<open>UPDATE user_cars SET user_id = $1 WHERE id = $2\<close>
  (no row with that id: nothing changes). The result is the table as the transaction
  sees it; on an error the caller abandons it.
\<close>

fun updateOwnership :: "(nat \<Rightarrow> bool) \<Rightarrow> (int \<rightharpoonup> int) \<Rightarrow> int list \<Rightarrow> int \<Rightarrow> error + (int \<rightharpoonup> int)" where
  "updateOwnership qfails cars [] newUserID = Inr cars"
| "updateOwnership qfails cars (carID # rest) newUserID =
     (if qfails 0 then Inl FailedToUpdateCarOwnership
      else updateOwnership (qfails \<circ> Suc)
             (case cars carID of None \<Rightarrow> cars | Some _ \<Rightarrow> cars(carID \<mapsto> newUserID))
             rest newUserID)"

definition updateCarOwnerships ::
  "env \<Rightarrow> (int \<rightharpoonup> int) \<Rightarrow> int \<Rightarrow> int \<Rightarrow> int list \<Rightarrow> int list \<Rightarrow> error + (int \<rightharpoonup> int)" where
  "updateCarOwnerships e cars userIDFrom userIDTo userFromCarIDs userToCarIDs =
     (case updateOwnership (\<lambda>i. fails e (UpdateCarOwner FromSide i)) cars userFromCarIDs userIDTo of
        Inl err \<Rightarrow> Inl (FailedToUpdateFromUserCars err)
      | Inr cars1 \<Rightarrow>
          (case updateOwnership (\<lambda>i. fails e (UpdateCarOwner ToSide i)) cars1 userToCarIDs userIDFrom of
             Inl err \<Rightarrow> Inl (FailedToUpdateToUserCars err)
           | Inr cars2 \<Rightarrow> Inr cars2))"

text \<open>
  The \<open>WHERE\<close> clause of \<open>declineTradesWithCars\<close>: some element of either array column
  is \<open>= ANY($2)\<close>.
\<close>

definition references_cars :: "trade \<Rightarrow> int list \<Rightarrow> bool" where
  "references_cars t carIDs =
     (list_ex (\<lambda>c. c \<in> set carIDs) (user_from_user_car_ids t)
      \<or> list_ex (\<lambda>c. c \<in> set carIDs) (user_to_user_car_ids t))"

definition decline_row :: "int \<Rightarrow> int list \<Rightarrow> trade \<Rightarrow> trade" where
  "decline_row excludeTradeID carIDs t =
     (if trade_id t \<noteq> excludeTradeID \<and> status t = ''pending'' \<and> references_cars t carIDs
      then t\<lparr>status := ''declined''\<rparr> else t)"

definition declineTradesWithCars :: "bool \<Rightarrow> trade list \<Rightarrow> int \<Rightarrow> int list \<Rightarrow> error + trade list" where
  "declineTradesWithCars qfail ts excludeTradeID carIDs =
     (if carIDs = [] then Inr ts
      else if qfail then Inl FailedToDeclineRelatedTrades
      else Inr (map (decline_row excludeTradeID carIDs) ts))"

text \<open>
  \<open>feed.CreateFeed\<close> inserts one row into \<open>feed\<close>; \<open>related_user_id\<close> is \<open>NULL\<close> unless the
  argument is positive. It runs on the connection pool, not on the caller's transaction.
\<close>

definition CreateFeed :: "bool \<Rightarrow> feed_entry list \<Rightarrow> int \<Rightarrow> string \<Rightarrow> int \<Rightarrow> int \<Rightarrow> error + feed_entry list" where
  "CreateFeed qfail fd userID feedType referenceID relatedUserID =
     (if qfail then Inl CreatingFeedItem
      else Inr (fd @ [\<lparr>feed_user_id = userID, feed_type = feedType, reference_id = referenceID,
                       related_user_id = (if relatedUserID > 0 then Some relatedUserID else None)\<rparr>]))"

text \<open>
  \<open>subscription.HasActiveSubscription\<close>: a row of the user with \<open>is_active = true\<close> and an
  end that is \<open>NULL\<close> or later than \<open>NOW()\<close>; no such row is \<open>false\<close>, not an error.
\<close>

definition HasActiveSubscription :: "bool \<Rightarrow> db \<Rightarrow> int \<Rightarrow> int \<Rightarrow> error + bool" where
  "HasActiveSubscription qfail d t userID =
     (if qfail then Inl DriverError
      else case user_subscriptions d userID of
             None \<Rightarrow> Inr False
           | Some s \<Rightarrow>
               Inr (is_active s = Some True
                    \<and> (case subscription_end s of None \<Rightarrow> True | Some en \<Rightarrow> t < en)))"

section \<open>The operations\<close>

text \<open>The \<open>UPDATE\<close> of \<open>AcceptTrade\<close>: every row with the id becomes accepted.\<close>

definition accept_row :: "int \<Rightarrow> int \<Rightarrow> trade \<Rightarrow> trade" where
  "accept_row tradeID t r =
     (if trade_id r = tradeID then r\<lparr>status := ''accepted'', traded_at := Some t\<rparr> else r)"

text \<open>
  \<open>AcceptTrade\<close>. The statements between \<open>Begin\<close> and \<open>Commit\<close> work on the transaction's
  view; every early return leaves through the deferred \<open>Rollback\<close>, so the tables of the
  result are those of the argument. The feed row is written through the pool and stays
  even when the commit fails.
\<close>

definition AcceptTrade :: "env \<Rightarrow> db \<Rightarrow> int \<Rightarrow> int \<Rightarrow> (error + unit) \<times> db" where
  "AcceptTrade e d userID tradeID =
     (if fails e BeginTx then (Inl FailedToBeginTransaction, d)
      else if fails e SelectTradeDetails then (Inl FailedToGetTradeDetails, d)
      else (case find (\<lambda>t. trade_id t = tradeID) (trades d) of
        None \<Rightarrow> (Inl FailedToGetTradeDetails, d)
      | Some t \<Rightarrow>
        if userID \<noteq> user_id_to t then (Inl UserIsNotRecipient, d)
        else (case verifyCarOwnership (\<lambda>i. fails e (VerifyOwnershipQuery FromSide i))
                    (user_cars d) (user_id_from t) (user_from_user_car_ids t) of
          Inl err \<Rightarrow> (Inl (FailedToVerifyFromUserCarOwnership err), d)
        | Inr _ \<Rightarrow>
          (case verifyCarOwnership (\<lambda>i. fails e (VerifyOwnershipQuery ToSide i))
                    (user_cars d) (user_id_to t) (user_to_user_car_ids t) of
            Inl err \<Rightarrow> (Inl (FailedToVerifyToUserCarOwnership err), d)
          | Inr _ \<Rightarrow>
            if status t \<noteq> ''pending'' then (Inl TradeIsNotPending, d)
            else (case updateCarOwnerships e (user_cars d) (user_id_from t) (user_id_to t)
                        (user_from_user_car_ids t) (user_to_user_car_ids t) of
              Inl err \<Rightarrow> (Inl (FailedToUpdateCarOwnerships err), d)
            | Inr cars' \<Rightarrow>
              if fails e UpdateTradeStatus then (Inl FailedToUpdateTradeStatus, d)
              else (case declineTradesWithCars (fails e DeclineRelatedTrades)
                          (map (accept_row tradeID (now e)) (trades d)) tradeID
                          (user_from_user_car_ids t @ user_to_user_car_ids t) of
                Inl err \<Rightarrow> (Inl (FailedToAutoDeclineRelatedTrades err), d)
              | Inr ts' \<Rightarrow>
                (case CreateFeed (fails e InsertFeed) (feed d) (user_id_from t)
                       ''trade_completed'' tradeID (user_id_to t) of
                  Inl err \<Rightarrow> (Inl (FailedToCreateFeedEntry err), d)
                | Inr fd' \<Rightarrow>
                  if fails e CommitTx then (Inl DriverError, d\<lparr>feed := fd'\<rparr>)
                  else (Inr (), d\<lparr>trades := ts', user_cars := cars', feed := fd'\<rparr>))))))))"


text \<open>
  \<open>CreateTrade\<close>. The two subscription checks run before the transaction begins. The
  count of pending rows with the same four values (\<open>=\<close> on \<open>INT[]\<close> compares the arrays
  element by element, in order) short-circuits to a commit without an insert. The new row
  takes its id from the sequence, \<open>created_at\<close> from \<open>CURRENT_TIMESTAMP\<close>, and
  \<open>traded_at\<close> is \<open>NULL\<close>.
\<close>

definition same_pending :: "int \<Rightarrow> int \<Rightarrow> int list \<Rightarrow> int list \<Rightarrow> trade \<Rightarrow> bool" where
  "same_pending userIDFrom userIDTo userFromCarIDs userToCarIDs t =
     (status t = ''pending'' \<and> user_id_from t = userIDFrom \<and> user_id_to t = userIDTo
      \<and> user_from_user_car_ids t = userFromCarIDs \<and> user_to_user_car_ids t = userToCarIDs)"

definition existingTradeCount :: "db \<Rightarrow> int \<Rightarrow> int \<Rightarrow> int list \<Rightarrow> int list \<Rightarrow> nat" where
  "existingTradeCount d userIDFrom userIDTo userFromCarIDs userToCarIDs =
     length (filter (same_pending userIDFrom userIDTo userFromCarIDs userToCarIDs) (trades d))"

definition insert_trade :: "env \<Rightarrow> db \<Rightarrow> int \<Rightarrow> int \<Rightarrow> int list \<Rightarrow> int list \<Rightarrow> db" where
  "insert_trade e d userIDFrom userIDTo userFromCarIDs userToCarIDs =
     d\<lparr>trades := trades d @
          [\<lparr>trade_id = trades_id_seq d, user_id_from = userIDFrom, user_id_to = userIDTo,
            status = ''pending'', user_from_user_car_ids = userFromCarIDs,
            user_to_user_car_ids = userToCarIDs, traded_at = None, created_at = now e\<rparr>],
        trades_id_seq := trades_id_seq d + 1\<rparr>"

definition CreateTrade ::
  "env \<Rightarrow> db \<Rightarrow> int \<Rightarrow> int \<Rightarrow> int list \<Rightarrow> int list \<Rightarrow> (error + unit) \<times> db" where
  "CreateTrade e d userIDFrom userIDTo userFromCarIDs userToCarIDs =
     (case HasActiveSubscription (fails e CheckSubscriptionFrom) d (now e) userIDFrom of
        Inl err \<Rightarrow> (Inl (FailedToCheckFromUserSubscription err), d)
      | Inr hasSubscriptionFrom \<Rightarrow>
        if \<not> hasSubscriptionFrom then (Inl TradingRequiresActiveSubscription, d)
        else (case HasActiveSubscription (fails e CheckSubscriptionTo) d (now e) userIDTo of
          Inl err \<Rightarrow> (Inl (FailedToCheckToUserSubscription err), d)
        | Inr hasSubscriptionTo \<Rightarrow>
          if \<not> hasSubscriptionTo then (Inl CannotTradeWithUserWithoutSubscription, d)
          else if fails e BeginTx then (Inl FailedToBeginTransaction, d)
          else if fails e CountExistingTrades then (Inl FailedToCheckExistingTrades, d)
          else if existingTradeCount d userIDFrom userIDTo userFromCarIDs userToCarIDs > 0
            then (if fails e CommitTx then (Inl DriverError, d) else (Inr (), d))
          else (case verifyCarOwnership (\<lambda>i. fails e (VerifyOwnershipQuery FromSide i))
                      (user_cars d) userIDFrom userFromCarIDs of
            Inl err \<Rightarrow> (Inl (FailedToVerifyFromUserCarOwnership err), d)
          | Inr _ \<Rightarrow>
            (case verifyCarOwnership (\<lambda>i. fails e (VerifyOwnershipQuery ToSide i))
                      (user_cars d) userIDTo userToCarIDs of
              Inl err \<Rightarrow> (Inl (FailedToVerifyToUserCarOwnership err), d)
            | Inr _ \<Rightarrow>
              if fails e InsertTrade then (Inl FailedToCreateTrade, d)
              else if fails e CommitTx then (Inl DriverError, d)
              else (Inr (), insert_trade e d userIDFrom userIDTo userFromCarIDs userToCarIDs)))))"

text \<open>
  \<open>DeclineTrade\<close>: one \<open>UPDATE ... WHERE id = $1 AND status = 'pending'\<close> on the pool; no
  row affected is an error. The function has no parameter for the caller.
\<close>

definition decline_pending_row :: "int \<Rightarrow> trade \<Rightarrow> trade" where
  "decline_pending_row tradeID t =
     (if trade_id t = tradeID \<and> status t = ''pending'' then t\<lparr>status := ''declined''\<rparr> else t)"

definition DeclineTrade :: "env \<Rightarrow> db \<Rightarrow> int \<Rightarrow> (error + unit) \<times> db" where
  "DeclineTrade e d tradeID =
     (if fails e DeclineTradeExec then (Inl FailedToDeclineTrade, d)
      else if filter (\<lambda>t. trade_id t = tradeID \<and> status t = ''pending'') (trades d) = []
        then (Inl (NoPendingTradeFound tradeID), d)
      else (Inr (), d\<lparr>trades := map (decline_pending_row tradeID) (trades d)\<rparr>))"

subsection \<open>The HTTP handlers\<close>

text \<open>
  The handlers get the decoded JSON body (\<open>None\<close>: decoding failed) and the user id that
  the authentication middleware put into the request context (\<open>None\<close>: missing), and
  answer with a status code. A list of the body is the slice that a JSON array decodes
  to (\<open>[]\<close> for the empty array); a body without the field leaves the slice \<open>nil\<close>,
  which the driver sends as \<open>NULL\<close>, and that case is not modelled.
\<close>

record tradeRequest =
  UserIDTo :: int
  UserFromCarIDs :: "int list"
  UserToCarIDs :: "int list"

record tradeRequestResponse =
  TradeID :: int
  Response :: string

definition HandleCreateTrade :: "env \<Rightarrow> db \<Rightarrow> int option \<Rightarrow> tradeRequest option \<Rightarrow> nat \<times> db" where
  "HandleCreateTrade e d ctxUserID body =
     (case body of
        None \<Rightarrow> (400, d)
      | Some req \<Rightarrow>
        (case ctxUserID of
           None \<Rightarrow> (500, d)
         | Some userIDFrom \<Rightarrow>
           (case CreateTrade e d userIDFrom (UserIDTo req) (UserFromCarIDs req) (UserToCarIDs req) of
              (Inl err, d') \<Rightarrow> (500, d')
            | (Inr _, d') \<Rightarrow> (200, d'))))"

definition HandleTradeRequestResponse ::
  "env \<Rightarrow> db \<Rightarrow> int option \<Rightarrow> tradeRequestResponse option \<Rightarrow> nat \<times> db" where
  "HandleTradeRequestResponse e d ctxUserID body =
     (case body of
        None \<Rightarrow> (400, d)
      | Some req \<Rightarrow>
        (case ctxUserID of
           None \<Rightarrow> (500, d)
         | Some userID \<Rightarrow>
           if Response req = ''accept'' then
             (case AcceptTrade e d userID (TradeID req) of
                (Inl err, d') \<Rightarrow> (500, d')
              | (Inr _, d') \<Rightarrow> (200, d'))
           else if Response req = ''decline'' then
             (case DeclineTrade e d (TradeID req) of
                (Inl err, d') \<Rightarrow> (500, d')
              | (Inr _, d') \<Rightarrow> (200, d'))
           else (400, d)))"

subsection \<open>The trade history\<close>

text \<open>
  \<open>GetUserTrades\<close>. \<open>offset := (page - 1) * pageSize\<close> is arithmetic on Go's 64-bit
  \<open>int\<close>, which wraps. PostgreSQL rejects a negative \<open>LIMIT\<close> or \<open>OFFSET\<close>: \<open>Query\<close>
  itself returns no error then, no row comes, and the refusal of the server is what
  \<open>rows.Err()\<close> reports after the loop. The query
  orders by \<open>created_at DESC\<close> and by nothing else; the model sorts the rows stably, so
  rows with the same \<open>created_at\<close> come in the order of the table. The timestamps of
  \<open>TradeInfo\<close> are left unformatted.
\<close>

definition wrap64 :: "int \<Rightarrow> int" where
  "wrap64 x = (x + 2 ^ 63) mod 2 ^ 64 - 2 ^ 63"

definition involves :: "int \<Rightarrow> trade \<Rightarrow> bool" where
  "involves userID t = (user_id_from t = userID \<or> user_id_to t = userID)"

fun scan_rows :: "(nat \<Rightarrow> bool) \<Rightarrow> trade list \<Rightarrow> error + trade list" where
  "scan_rows qfails [] = Inr []"
| "scan_rows qfails (r # rows) =
     (if qfails 0 then Inl FailedToScanTradeRow
      else (case scan_rows (qfails \<circ> Suc) rows of
              Inl err \<Rightarrow> Inl err
            | Inr ts \<Rightarrow> Inr (r # ts)))"

definition GetUserTrades :: "env \<Rightarrow> db \<Rightarrow> int \<Rightarrow> int \<Rightarrow> int \<Rightarrow> error + (trade list \<times> int)" where
  "GetUserTrades e d userID page pageSize =
     (let offset = wrap64 ((page - 1) * pageSize) in
      if fails e CountUserTrades then Inl FailedToGetTotalTradeCount
      else
        let totalCount = int (length (filter (involves userID) (trades d))) in
        if fails e SelectUserTrades then Inl FailedToFetchTrades
        else if pageSize < 0 \<or> offset < 0 then Inl ErrorIteratingTradeRows
        else (case scan_rows (\<lambda>i. fails e (ScanTradeRow i))
                     (take (nat pageSize) (drop (nat offset)
                        (sort_key (\<lambda>t. - created_at t) (filter (involves userID) (trades d))))) of
                Inl err \<Rightarrow> Inl err
              | Inr ts \<Rightarrow>
                if fails e IterateTradeRows then Inl ErrorIteratingTradeRows
                else Inr (ts, totalCount)))"

text \<open>
  The history as the specification words it: the trades of the user, newest first, ties
  broken by the trade id descending, sliced at offset \<open>(page - 1) * pageSize\<close>, with the
  total count.
\<close>

definition GetUserTrades_spec :: "db \<Rightarrow> int \<Rightarrow> int \<Rightarrow> int \<Rightarrow> trade list \<times> int" where
  "GetUserTrades_spec d userID page pageSize =
     (take (nat pageSize) (drop (nat ((page - 1) * pageSize))
        (sort_key (\<lambda>t. (- created_at t, - trade_id t)) (filter (involves userID) (trades d)))),
      int (length (filter (involves userID) (trades d))))"

section \<open>Sequences of operations\<close>

text \<open>
  The operations that write table \<open>trades\<close>: the three exported ones and the conflict
  resolver \<open>declineTradesWithCars\<close> (in the source it runs only inside \<open>AcceptTrade\<close>;
  here it may also run on its own). \<open>run_serial\<close> applies a sequence of them one after
  another, each on the state the one before has left, whatever each one returns. These
  are the serial executions only: the server handles requests concurrently, and the
  statements of two requests can interleave (see \<open>AcceptTrade_interleaved\<close> below).
\<close>

datatype operation =
    OpCreateTrade env int int "int list" "int list"
  | OpAcceptTrade env int int
  | OpDeclineTrade env int
  | OpDeclineTradesWithCars bool int "int list"

fun apply_operation :: "operation \<Rightarrow> db \<Rightarrow> db" where
  "apply_operation (OpCreateTrade e userIDFrom userIDTo userFromCarIDs userToCarIDs) d =
     snd (CreateTrade e d userIDFrom userIDTo userFromCarIDs userToCarIDs)"
| "apply_operation (OpAcceptTrade e userID tradeID) d = snd (AcceptTrade e d userID tradeID)"
| "apply_operation (OpDeclineTrade e tradeID) d = snd (DeclineTrade e d tradeID)"
| "apply_operation (OpDeclineTradesWithCars qfail excludeTradeID carIDs) d =
     (case declineTradesWithCars qfail (trades d) excludeTradeID carIDs of
        Inl err \<Rightarrow> d
      | Inr ts \<Rightarrow> d\<lparr>trades := ts\<rparr>)"

fun run_serial :: "operation list \<Rightarrow> db \<Rightarrow> db" where
  "run_serial [] d = d"
| "run_serial (oper # opers) d = run_serial opers (apply_operation oper d)"

subsection \<open>An accept whose statements interleave with another request\<close>

text \<open>
  \<open>AcceptTrade\<close> begins its transaction with \<open>s.db.Begin(ctx)\<close>, that is at the default
  isolation level of the server (read committed), and its \<open>SELECT\<close> takes no lock
  (no \<open>FOR UPDATE\<close>). So every statement of the transaction sees what has been
  committed when the statement starts, and another request can commit between two of
  them. The function falls into two parts at the point where it stops reading:

  \<^item> \<open>AcceptTrade_reads\<close>: the begin, the \<open>SELECT\<close> of the trade into the local
    variables, the test of the recipient, the two ownership verifications and the test of
    the local variable \<open>status\<close>. Its result is the row as it was read.
  \<^item> \<open>AcceptTrade_writes\<close>: the updates of \<open>user_cars\<close> with the parties and lists
    of the local variables, \<open>UPDATE trades SET status = 'accepted', traded_at = NOW()
    WHERE id = $1\<close> (the \<open>WHERE\<close> clause does not look at the status),
    \<open>declineTradesWithCars\<close>, the feed entry and the commit, on the database as it is
    when they run.

  \<open>AcceptTrade_interleaved\<close> is the execution in which one other operation commits
  between the two parts. With no operation in between, the two parts are \<open>AcceptTrade\<close>
  (lemma \<open>AcceptTrade_serial\<close>).
\<close>

definition AcceptTrade_reads :: "env \<Rightarrow> db \<Rightarrow> int \<Rightarrow> int \<Rightarrow> error + trade" where
  "AcceptTrade_reads e d userID tradeID =
     (if fails e BeginTx then Inl FailedToBeginTransaction
      else if fails e SelectTradeDetails then Inl FailedToGetTradeDetails
      else (case find (\<lambda>t. trade_id t = tradeID) (trades d) of
        None \<Rightarrow> Inl FailedToGetTradeDetails
      | Some t \<Rightarrow>
        if userID \<noteq> user_id_to t then Inl UserIsNotRecipient
        else (case verifyCarOwnership (\<lambda>i. fails e (VerifyOwnershipQuery FromSide i))
                    (user_cars d) (user_id_from t) (user_from_user_car_ids t) of
          Inl err \<Rightarrow> Inl (FailedToVerifyFromUserCarOwnership err)
        | Inr _ \<Rightarrow>
          (case verifyCarOwnership (\<lambda>i. fails e (VerifyOwnershipQuery ToSide i))
                    (user_cars d) (user_id_to t) (user_to_user_car_ids t) of
            Inl err \<Rightarrow> Inl (FailedToVerifyToUserCarOwnership err)
          | Inr _ \<Rightarrow>
            if status t \<noteq> ''pending'' then Inl TradeIsNotPending else Inr t))))"

definition AcceptTrade_writes :: "env \<Rightarrow> db \<Rightarrow> trade \<Rightarrow> int \<Rightarrow> (error + unit) \<times> db" where
  "AcceptTrade_writes e d t tradeID =
     (case updateCarOwnerships e (user_cars d) (user_id_from t) (user_id_to t)
             (user_from_user_car_ids t) (user_to_user_car_ids t) of
        Inl err \<Rightarrow> (Inl (FailedToUpdateCarOwnerships err), d)
      | Inr cars' \<Rightarrow>
        if fails e UpdateTradeStatus then (Inl FailedToUpdateTradeStatus, d)
        else (case declineTradesWithCars (fails e DeclineRelatedTrades)
                    (map (accept_row tradeID (now e)) (trades d)) tradeID
                    (user_from_user_car_ids t @ user_to_user_car_ids t) of
          Inl err \<Rightarrow> (Inl (FailedToAutoDeclineRelatedTrades err), d)
        | Inr ts' \<Rightarrow>
          (case CreateFeed (fails e InsertFeed) (feed d) (user_id_from t)
                 ''trade_completed'' tradeID (user_id_to t) of
            Inl err \<Rightarrow> (Inl (FailedToCreateFeedEntry err), d)
          | Inr fd' \<Rightarrow>
            if fails e CommitTx then (Inl DriverError, d\<lparr>feed := fd'\<rparr>)
            else (Inr (), d\<lparr>trades := ts', user_cars := cars', feed := fd'\<rparr>))))"

definition AcceptTrade_interleaved ::
  "env \<Rightarrow> db \<Rightarrow> int \<Rightarrow> int \<Rightarrow> operation \<Rightarrow> (error + unit) \<times> db" where
  "AcceptTrade_interleaved e d userID tradeID other =
     (case AcceptTrade_reads e d userID tradeID of
        Inl err \<Rightarrow> (Inl err, apply_operation other d)
      | Inr t \<Rightarrow> AcceptTrade_writes e (apply_operation other d) t tradeID)"

text \<open>
  What the schema and the operations keep true of table \<open>trades\<close>: the ids are distinct
  (\<open>PRIMARY KEY\<close>) and below the next value of the sequence.
\<close>

definition trades_ok :: "db \<Rightarrow> bool" where
  "trades_ok d = (distinct (map trade_id (trades d))
                  \<and> list_all (\<lambda>t. trade_id t < trades_id_seq d) (trades d))"

text \<open>No two pending rows carry the same parties and the same two lists.\<close>

definition offer_of :: "trade \<Rightarrow> int \<times> int \<times> int list \<times> int list" where
  "offer_of t = (user_id_from t, user_id_to t, user_from_user_car_ids t, user_to_user_car_ids t)"

definition pending_unique :: "trade list \<Rightarrow> bool" where
  "pending_unique ts = distinct (map offer_of (filter (\<lambda>t. status t = ''pending'') ts))"


section \<open>Example states\<close>

text \<open>
  The first scenario of the specification: user 1 owns the cars 1, 2, 3 and user 2 the
  cars 4, 5; trade 1 offers \<open>[1, 2, 3]\<close> for \<open>[4, 5]\<close>. In \<open>env_ok\<close> no call fails.
\<close>

definition env_ok :: env where
  "env_ok = \<lparr>now = 100, fails = (\<lambda>c. False)\<rparr>"

definition active_sub :: user_subscription where
  "active_sub = \<lparr>is_active = Some True, subscription_end = None\<rparr>"

definition trade1 :: trade where
  "trade1 = \<lparr>trade_id = 1, user_id_from = 1, user_id_to = 2, status = ''pending'',
             user_from_user_car_ids = [1, 2, 3], user_to_user_car_ids = [4, 5],
             traded_at = None, created_at = 50\<rparr>"

definition db1 :: db where
  "db1 = \<lparr>trades = [trade1], trades_id_seq = 2,
          user_cars = [1 \<mapsto> 1, 2 \<mapsto> 1, 3 \<mapsto> 1, 4 \<mapsto> 2, 5 \<mapsto> 2],
          user_subscriptions = [1 \<mapsto> active_sub, 2 \<mapsto> active_sub],
          feed = []\<rparr>"

text \<open>
  The third scenario: user 1 offers car 1 to user 2 (trade 1) and to user 3 (trade 2);
  trade 3 is about another car.
\<close>

definition trade2 :: trade where
  "trade2 = \<lparr>trade_id = 2, user_id_from = 1, user_id_to = 3, status = ''pending'',
             user_from_user_car_ids = [1], user_to_user_car_ids = [],
             traded_at = None, created_at = 60\<rparr>"

definition trade3 :: trade where
  "trade3 = \<lparr>trade_id = 3, user_id_from = 3, user_id_to = 2, status = ''pending'',
             user_from_user_car_ids = [7], user_to_user_car_ids = [],
             traded_at = None, created_at = 70\<rparr>"

definition db3 :: db where
  "db3 = db1\<lparr>trades := [trade1, trade2, trade3], trades_id_seq := 4,
             user_cars := (user_cars db1)(7 \<mapsto> 3)\<rparr>"

text \<open>The first scenario after the accept.\<close>

definition trade1_accepted :: trade where
  "trade1_accepted = trade1\<lparr>status := ''accepted'', traded_at := Some 100\<rparr>"

definition db1_accepted :: db where
  "db1_accepted = db1\<lparr>trades := [trade1_accepted],
                      user_cars := [1 \<mapsto> 2, 2 \<mapsto> 2, 3 \<mapsto> 2, 4 \<mapsto> 1, 5 \<mapsto> 1]\<rparr>"

text \<open>The fourth scenario: car 1 was sold (owner 0) after trade 1 was created.\<close>

definition db1_sold :: db where
  "db1_sold = db1\<lparr>user_cars := (user_cars db1)(1 \<mapsto> 0)\<rparr>"

text \<open>Trade 1 declined, the cars still with their owners.\<close>

definition db1_declined :: db where
  "db1_declined = db1\<lparr>trades := [trade1\<lparr>status := ''declined''\<rparr>]\<rparr>"

text \<open>An environment in which the insert into \<open>feed\<close> fails and nothing else does.\<close>

definition env_feed_fails :: env where
  "env_feed_fails = \<lparr>now = 100, fails = (\<lambda>c. c = InsertFeed)\<rparr>"

text \<open>No trades and no cars; users 1 and 2 have subscriptions.\<close>

definition db_empty :: db where
  "db_empty = \<lparr>trades = [], trades_id_seq = 1, user_cars = Map.empty,
               user_subscriptions = [1 \<mapsto> active_sub, 2 \<mapsto> active_sub], feed = []\<rparr>"

text \<open>Two trades of user 1 created at the same instant.\<close>

definition trade_a :: trade where
  "trade_a = \<lparr>trade_id = 1, user_id_from = 1, user_id_to = 2, status = ''pending'',
             user_from_user_car_ids = [1], user_to_user_car_ids = [4],
             traded_at = None, created_at = 50\<rparr>"

definition trade_b :: trade where
  "trade_b = \<lparr>trade_id = 2, user_id_from = 1, user_id_to = 2, status = ''pending'',
             user_from_user_car_ids = [2], user_to_user_car_ids = [5],
             traded_at = None, created_at = 50\<rparr>"

definition db_ties :: db where
  "db_ties = db1\<lparr>trades := [trade_a, trade_b], trades_id_seq := 3\<rparr>"

section \<open>Facts about the helpers\<close>

lemmas op_defs = AcceptTrade_def updateCarOwnerships_def declineTradesWithCars_def
  CreateFeed_def accept_row_def decline_row_def references_cars_def

lemma verifyCarOwnership_owned:
  "verifyCarOwnership qfails cars userID carIDs = Inr x \<Longrightarrow> c \<in> set carIDs \<Longrightarrow> cars c = Some userID"
  by (induction carIDs arbitrary: qfails) (auto split: if_splits)

lemma updateOwnership_result:
  "updateOwnership qfails cars carIDs newUserID = Inr cars' \<Longrightarrow>
     cars' c = (if c \<in> set carIDs \<and> cars c \<noteq> None then Some newUserID else cars c)"
  by (induction carIDs arbitrary: qfails cars) (auto split: if_splits option.splits)

lemma updateCarOwnerships_result:
  assumes "updateCarOwnerships e cars userIDFrom userIDTo fromIDs toIDs = Inr cars'"
  shows "cars' c = (if c \<in> set toIDs \<and> cars c \<noteq> None then Some userIDFrom
                    else if c \<in> set fromIDs \<and> cars c \<noteq> None then Some userIDTo else cars c)"
  using assms
  by (auto simp: updateCarOwnerships_def split: sum.splits dest!: updateOwnership_result[where c=c])

lemma find_map_same_id:
  assumes "\<And>x. trade_id (f x) = trade_id x"
  shows "find (\<lambda>t. trade_id t = k) (map f xs) = map_option f (find (\<lambda>t. trade_id t = k) xs)"
  by (induction xs) (auto simp: assms)

lemma trade_id_accept_row [simp]: "trade_id (accept_row k t r) = trade_id r"
  by (simp add: accept_row_def)

lemma trade_id_decline_row [simp]: "trade_id (decline_row k cs r) = trade_id r"
  by (simp add: decline_row_def)

lemma references_cars_iff:
  "references_cars t carIDs \<longleftrightarrow>
     (set (user_from_user_car_ids t) \<union> set (user_to_user_car_ids t)) \<inter> set carIDs \<noteq> {}"
  by (auto simp: references_cars_def list_ex_iff)

lemma decline_row_no_cars [simp]: "decline_row k [] t = t"
  by (simp add: decline_row_def references_cars_iff)

lemma declineTradesWithCars_map:
  "declineTradesWithCars qfail ts k cs = Inr ts' \<Longrightarrow> ts' = map (decline_row k cs) ts"
  by (auto simp: declineTradesWithCars_def split: if_splits intro: map_idI[symmetric])

lemma AcceptTrade_db1: "fst (AcceptTrade env_ok db1 2 1) = Inr ()"
  by (simp add: op_defs env_ok_def db1_def trade1_def)

lemma AcceptTrade_success:
  assumes "AcceptTrade e d userID tradeID = (Inr u, d')"
  obtains t cars' fd' where
    "find (\<lambda>t. trade_id t = tradeID) (trades d) = Some t"
    "userID = user_id_to t" "status t = ''pending''"
    "d' = d\<lparr>trades := map (decline_row tradeID (user_from_user_car_ids t @ user_to_user_car_ids t))
                          (map (accept_row tradeID (now e)) (trades d)),
              user_cars := cars', feed := fd'\<rparr>"
  using assms
  by (auto simp: AcceptTrade_def split: if_splits option.splits sum.splits
      dest!: declineTradesWithCars_map)

lemma AcceptTrade_failure:
  "AcceptTrade e d userID tradeID = (Inl err, d') \<Longrightarrow> trades d' = trades d \<and> user_cars d' = user_cars d"
  by (auto simp: AcceptTrade_def split: if_splits option.splits sum.splits)

lemma AcceptTrade_db3: "fst (AcceptTrade env_ok db3 2 1) = Inr ()"
  by (simp add: op_defs env_ok_def db3_def db1_def trade1_def trade2_def trade3_def)

section \<open>Atomicity of an accept\<close>

text \<open>
  Claim C1. For every call of \<open>AcceptTrade\<close>, in every state and whatever calls of the
  store fail: when the call returns an error, the owners of all cars and all rows of
  \<open>trades\<close> are as before the call; when it succeeds, every car of the trade's
  \<open>user_from_user_car_ids\<close> is owned by \<open>user_id_to\<close>, every car of its
  \<open>user_to_user_car_ids\<close> by \<open>user_id_from\<close>, and the trade is accepted.
\<close>

theorem AcceptTrade_all_or_nothing:
  assumes "AcceptTrade e d userID tradeID = (r, d')"
  shows "case r of
           Inl err \<Rightarrow> user_cars d' = user_cars d \<and> trades d' = trades d
         | Inr u \<Rightarrow>
             (\<exists>t t'. find (\<lambda>t. trade_id t = tradeID) (trades d) = Some t
                \<and> (\<forall>c \<in> set (user_from_user_car_ids t). user_cars d' c = Some (user_id_to t))
                \<and> (\<forall>c \<in> set (user_to_user_car_ids t). user_cars d' c = Some (user_id_from t))
                \<and> find (\<lambda>t. trade_id t = tradeID) (trades d') = Some t'
                \<and> status t' = ''accepted'')"
proof (cases r)
  case (Inl err)
  with assms show ?thesis
    by (auto simp: AcceptTrade_def split: if_splits option.splits sum.splits)
next
  case (Inr u)
  with assms obtain t cars' ts' fd' where
    t: "find (\<lambda>t. trade_id t = tradeID) (trades d) = Some t"
    and vf: "verifyCarOwnership (\<lambda>i. fails e (VerifyOwnershipQuery FromSide i))
                    (user_cars d) (user_id_from t) (user_from_user_car_ids t) = Inr ()"
    and vt: "verifyCarOwnership (\<lambda>i. fails e (VerifyOwnershipQuery ToSide i))
                    (user_cars d) (user_id_to t) (user_to_user_car_ids t) = Inr ()"
    and up: "updateCarOwnerships e (user_cars d) (user_id_from t) (user_id_to t)
                        (user_from_user_car_ids t) (user_to_user_car_ids t) = Inr cars'"
    and dc: "declineTradesWithCars (fails e DeclineRelatedTrades)
                          (map (accept_row tradeID (now e)) (trades d)) tradeID
                          (user_from_user_car_ids t @ user_to_user_car_ids t) = Inr ts'"
    and d': "d' = d\<lparr>trades := ts', user_cars := cars', feed := fd'\<rparr>"
    by (auto simp: AcceptTrade_def split: if_splits option.splits sum.splits)
  have id: "trade_id t = tradeID"
    using t by (auto simp: find_Some_iff)
  have from_ok: "user_cars d' c = Some (user_id_to t)" if "c \<in> set (user_from_user_car_ids t)" for c
    using verifyCarOwnership_owned[OF vf that] updateCarOwnerships_result[OF up, of c] that
      verifyCarOwnership_owned[OF vt, of c]
    by (auto simp: d')
  have to_ok: "user_cars d' c = Some (user_id_from t)" if "c \<in> set (user_to_user_car_ids t)" for c
    using verifyCarOwnership_owned[OF vt that] updateCarOwnerships_result[OF up, of c] that
    by (auto simp: d')
  have ts': "ts' = map (decline_row tradeID (user_from_user_car_ids t @ user_to_user_car_ids t))
                    (map (accept_row tradeID (now e)) (trades d))"
    using declineTradesWithCars_map[OF dc] .
  have "find (\<lambda>t. trade_id t = tradeID) (trades d') =
          Some (decline_row tradeID (user_from_user_car_ids t @ user_to_user_car_ids t)
                  (accept_row tradeID (now e) t))"
    by (simp add: d' ts' find_map_same_id t)
  moreover have "status (decline_row tradeID (user_from_user_car_ids t @ user_to_user_car_ids t)
                   (accept_row tradeID (now e) t)) = ''accepted''"
    by (simp add: decline_row_def accept_row_def id)
  ultimately show ?thesis
    using Inr t from_ok to_ok by auto
qed

theorem AcceptTrade_all_or_nothing_witness:
  "fst (AcceptTrade env_ok db1 2 1) = Inr ()
   \<and> user_cars (snd (AcceptTrade env_ok db1 2 1)) 1 = Some 2
   \<and> user_cars (snd (AcceptTrade env_ok db1 2 1)) 2 = Some 2
   \<and> user_cars (snd (AcceptTrade env_ok db1 2 1)) 3 = Some 2
   \<and> user_cars (snd (AcceptTrade env_ok db1 2 1)) 4 = Some 1
   \<and> user_cars (snd (AcceptTrade env_ok db1 2 1)) 5 = Some 1"
proof -
  have "AcceptTrade env_ok db1 2 1 = (Inr (), snd (AcceptTrade env_ok db1 2 1))"
    using AcceptTrade_db1 by (simp add: prod_eq_iff)
  from AcceptTrade_all_or_nothing[OF this] AcceptTrade_db1
  show ?thesis by (simp add: db1_def trade1_def)
qed


section \<open>The conflict resolver\<close>

text \<open>
  Claim C2. When \<open>AcceptTrade\<close> succeeds on trade \<open>t\<close>, every row with another id that
  was pending is afterwards the same row with status \<open>declined\<close> if one of its two lists
  has a car in common with the cars of \<open>t\<close> (both lists together), and is unchanged
  (still \<open>pending\<close>) if it has none.
\<close>

theorem AcceptTrade_declines_conflicting:
  assumes acc: "AcceptTrade e d userID tradeID = (Inr u, d')"
    and t: "find (\<lambda>t. trade_id t = tradeID) (trades d) = Some t"
    and i: "i < length (trades d)"
    and other: "trade_id (trades d ! i) \<noteq> tradeID"
    and pend: "status (trades d ! i) = ''pending''"
  shows "length (trades d') = length (trades d)
    \<and> trades d' ! i = (trades d ! i)\<lparr>status :=
         (if (set (user_from_user_car_ids (trades d ! i)) \<union> set (user_to_user_car_ids (trades d ! i)))
               \<inter> (set (user_from_user_car_ids t) \<union> set (user_to_user_car_ids t)) \<noteq> {}
          then ''declined'' else ''pending'')\<rparr>"
proof -
  from acc obtain t0 cars' fd' where
    t0: "find (\<lambda>t. trade_id t = tradeID) (trades d) = Some t0"
    and d': "d' = d\<lparr>trades := map (decline_row tradeID (user_from_user_car_ids t0 @ user_to_user_car_ids t0))
                          (map (accept_row tradeID (now e)) (trades d)),
              user_cars := cars', feed := fd'\<rparr>"
    by (rule AcceptTrade_success)
  have [simp]: "t0 = t" using t t0 by simp
  have row: "accept_row tradeID (now e) (trades d ! i) = trades d ! i"
    using other by (simp add: accept_row_def)
  have "(trades d ! i)\<lparr>status := ''pending''\<rparr> = trades d ! i"
    using pend by (metis trade.surjective trade.update_convs(4))
  then show ?thesis
    using i other pend
    by (simp add: d' row decline_row_def references_cars_iff)
qed

theorem AcceptTrade_declines_conflicting_witness:
  "status (trades (snd (AcceptTrade env_ok db3 2 1)) ! 1) = ''declined''
   \<and> status (trades (snd (AcceptTrade env_ok db3 2 1)) ! 2) = ''pending''"
proof -
  have acc: "AcceptTrade env_ok db3 2 1 = (Inr (), snd (AcceptTrade env_ok db3 2 1))"
    using AcceptTrade_db3 by (simp add: prod_eq_iff)
  have t: "find (\<lambda>t. trade_id t = 1) (trades db3) = Some trade1"
    by (simp add: db3_def trade1_def)
  have "trades (snd (AcceptTrade env_ok db3 2 1)) ! 1 = trade2\<lparr>status := ''declined''\<rparr>"
    using AcceptTrade_declines_conflicting[OF acc t, of 1]
    by (simp add: db3_def trade1_def trade2_def)
  moreover have "trades (snd (AcceptTrade env_ok db3 2 1)) ! 2 = trade3\<lparr>status := ''pending''\<rparr>"
    using AcceptTrade_declines_conflicting[OF acc t, of 2]
    by (simp add: db3_def trade1_def trade3_def)
  ultimately show ?thesis by simp
qed


section \<open>Terminal trades\<close>

lemma find_distinct_nth:
  assumes "distinct (map trade_id ts)" "find (\<lambda>t. trade_id t = k) ts = Some t"
    "i < length ts" "trade_id (ts ! i) = k"
  shows "ts ! i = t"
proof -
  from assms(2) obtain j where j: "j < length ts" "ts ! j = t" "trade_id t = k"
    by (auto simp: find_Some_iff)
  have "map trade_id ts ! i = map trade_id ts ! j"
    using assms(3,4) j by simp
  moreover have "i < length (map trade_id ts)" "j < length (map trade_id ts)"
    using assms(3) j(1) by simp_all
  ultimately have "i = j"
    using assms(1) nth_eq_iff_index_eq by blast
  then show ?thesis using j by simp
qed

lemma CreateTrade_trades:
  "trades (snd (CreateTrade e d f t fc tc)) = trades d
   \<or> snd (CreateTrade e d f t fc tc) = insert_trade e d f t fc tc"
  by (auto simp: CreateTrade_def split: sum.splits)

lemma DeclineTrade_trades:
  "trades (snd (DeclineTrade e d k)) = trades d
   \<or> trades (snd (DeclineTrade e d k)) = map (decline_pending_row k) (trades d)"
  by (auto simp: DeclineTrade_def)

lemma DeclineTrade_seq [simp]: "trades_id_seq (snd (DeclineTrade e d k)) = trades_id_seq d"
  by (auto simp: DeclineTrade_def)

lemma AcceptTrade_seq [simp]: "trades_id_seq (snd (AcceptTrade e d u k)) = trades_id_seq d"
  by (auto simp: AcceptTrade_def split: sum.splits option.splits)

lemma AcceptTrade_trades:
  "trades (snd (AcceptTrade e d u k)) = trades d
   \<or> (\<exists>t. find (\<lambda>t. trade_id t = k) (trades d) = Some t \<and> status t = ''pending''
        \<and> trades (snd (AcceptTrade e d u k)) =
           map (decline_row k (user_from_user_car_ids t @ user_to_user_car_ids t))
             (map (accept_row k (now e)) (trades d)))"
proof (cases "fst (AcceptTrade e d u k)")
  case (Inl err)
  then have "AcceptTrade e d u k = (Inl err, snd (AcceptTrade e d u k))"
    by (simp add: prod_eq_iff)
  from AcceptTrade_failure[OF this] show ?thesis by simp
next
  case (Inr x)
  then have "AcceptTrade e d u k = (Inr x, snd (AcceptTrade e d u k))"
    by (simp add: prod_eq_iff)
  then show ?thesis
    by (rule AcceptTrade_success) auto
qed

lemma trade_id_decline_pending_row [simp]: "trade_id (decline_pending_row k r) = trade_id r"
  by (simp add: decline_pending_row_def)

lemma trades_ok_step: "trades_ok d \<Longrightarrow> trades_ok (apply_operation oper d)"
proof (cases oper)
  case (OpCreateTrade e f t fc tc)
  assume ok: "trades_ok d"
  from CreateTrade_trades[of e d f t fc tc] show ?thesis
  proof
    assume "trades (snd (CreateTrade e d f t fc tc)) = trades d"
    moreover have "trades_id_seq d \<le> trades_id_seq (snd (CreateTrade e d f t fc tc))"
      by (auto simp: CreateTrade_def insert_trade_def split: sum.splits)
    ultimately show ?thesis using ok OpCreateTrade
      by (auto simp: trades_ok_def list_all_iff)
  next
    assume "snd (CreateTrade e d f t fc tc) = insert_trade e d f t fc tc"
    then show ?thesis using ok OpCreateTrade
      by (auto simp: trades_ok_def list_all_iff insert_trade_def)
  qed
next
  case (OpAcceptTrade e u k)
  assume ok: "trades_ok d"
  from AcceptTrade_trades[of e d u k] ok OpAcceptTrade show ?thesis
    by (auto simp: trades_ok_def list_all_iff comp_def)
next
  case (OpDeclineTrade e k)
  assume ok: "trades_ok d"
  from DeclineTrade_trades[of e d k] ok OpDeclineTrade show ?thesis
    by (auto simp: trades_ok_def list_all_iff comp_def)
next
  case (OpDeclineTradesWithCars qfail k cs)
  assume ok: "trades_ok d"
  then show ?thesis
    by (auto simp: OpDeclineTradesWithCars trades_ok_def list_all_iff comp_def
        split: sum.splits dest!: declineTradesWithCars_map)
qed

lemma terminal_step:
  assumes ok: "trades_ok d" and i: "i < length (trades d)"
    and fin: "status (trades d ! i) \<noteq> ''pending''"
  shows "i < length (trades (apply_operation oper d))
         \<and> trades (apply_operation oper d) ! i = trades d ! i"
proof (cases oper)
  case (OpCreateTrade e f t fc tc)
  from CreateTrade_trades[of e d f t fc tc] i show ?thesis
    by (auto simp: OpCreateTrade insert_trade_def nth_append)
next
  case (OpAcceptTrade e u k)
  from AcceptTrade_trades[of e d u k] show ?thesis
  proof
    assume "trades (snd (AcceptTrade e d u k)) = trades d"
    then show ?thesis using i by (simp add: OpAcceptTrade)
  next
    assume "\<exists>t. find (\<lambda>t. trade_id t = k) (trades d) = Some t \<and> status t = ''pending''
        \<and> trades (snd (AcceptTrade e d u k)) =
           map (decline_row k (user_from_user_car_ids t @ user_to_user_car_ids t))
             (map (accept_row k (now e)) (trades d))"
    then obtain t where t: "find (\<lambda>t. trade_id t = k) (trades d) = Some t"
      and pend: "status t = ''pending''"
      and ts: "trades (snd (AcceptTrade e d u k)) =
           map (decline_row k (user_from_user_car_ids t @ user_to_user_car_ids t))
             (map (accept_row k (now e)) (trades d))"
      by blast
    have "trade_id (trades d ! i) \<noteq> k"
    proof
      assume "trade_id (trades d ! i) = k"
      with ok t i have "trades d ! i = t"
        by (auto simp: trades_ok_def intro: find_distinct_nth)
      with pend fin show False by simp
    qed
    then show ?thesis
      using i fin by (simp add: OpAcceptTrade ts accept_row_def decline_row_def)
  qed
next
  case (OpDeclineTrade e k)
  from DeclineTrade_trades[of e d k] i fin show ?thesis
    by (auto simp: OpDeclineTrade decline_pending_row_def)
next
  case (OpDeclineTradesWithCars qfail k cs)
  from i fin show ?thesis
    by (auto simp: OpDeclineTradesWithCars decline_row_def
        split: sum.splits dest!: declineTradesWithCars_map)
qed


lemma trades_ok_run_serial: "trades_ok d \<Longrightarrow> trades_ok (run_serial opers d)"
  by (induction opers arbitrary: d) (auto intro: trades_ok_step)

lemma trades_ok_reachable: "trades d = [] \<Longrightarrow> trades_ok (run_serial opers d)"
  by (rule trades_ok_run_serial) (simp add: trades_ok_def)

text \<open>
  Operations that run one after another leave a terminal row alone: in a table with
  distinct ids (the primary key; \<open>trades_ok\<close> holds in every state that a serial run
  reaches from an empty table, \<open>trades_ok_reachable\<close>), a row whose status is not
  \<open>pending\<close> stays where it is and keeps every column, whatever sequence of
  \<open>CreateTrade\<close>, \<open>AcceptTrade\<close>, \<open>DeclineTrade\<close> and conflict-resolver runs follows,
  with whatever arguments and whatever failures of the store.
\<close>

lemma terminal_rows_kept_by_serial_runs:
  assumes "trades_ok d" and "i < length (trades d)"
    and "status (trades d ! i) \<noteq> ''pending''"
  shows "i < length (trades (run_serial opers d)) \<and> trades (run_serial opers d) ! i = trades d ! i"
  using assms
proof (induction opers arbitrary: d)
  case Nil
  then show ?case by simp
next
  case (Cons oper opers)
  have step: "i < length (trades (apply_operation oper d))"
    "trades (apply_operation oper d) ! i = trades d ! i"
    using terminal_step[OF Cons.prems] by simp_all
  have "trades_ok (apply_operation oper d)"
    using Cons.prems(1) by (rule trades_ok_step)
  from Cons.IH[OF this step(1)] step(2) Cons.prems(3)
  show ?case by simp
qed

lemma terminal_rows_kept_by_serial_runs_example:
  "trades_ok db1_accepted \<and> status (trades db1_accepted ! 0) = ''accepted''
   \<and> trades (run_serial [OpAcceptTrade env_ok 2 1, OpDeclineTrade env_ok 1,
                   OpDeclineTradesWithCars False 0 [1, 4],
                   OpCreateTrade env_ok 2 1 [1] [4]] db1_accepted) ! 0 = trade1_accepted"
  using terminal_rows_kept_by_serial_runs[of db1_accepted 0
      "[OpAcceptTrade env_ok 2 1, OpDeclineTrade env_ok 1,
        OpDeclineTradesWithCars False 0 [1, 4], OpCreateTrade env_ok 2 1 [1] [4]]"]
  by (simp add: trades_ok_def db1_accepted_def db1_def trade1_accepted_def trade1_def)

subsection \<open>A terminal row under an interleaved accept\<close>

lemma AcceptTrade_serial:
  "AcceptTrade e d userID tradeID =
     (case AcceptTrade_reads e d userID tradeID of
        Inl err \<Rightarrow> (Inl err, d)
      | Inr t \<Rightarrow> AcceptTrade_writes e d t tradeID)"
  by (simp add: AcceptTrade_def AcceptTrade_reads_def AcceptTrade_writes_def
      split: option.splits sum.splits)

lemma AcceptTrade_interleaved_reads_db1: "AcceptTrade_reads env_ok db1 2 1 = Inr trade1"
  by (simp add: AcceptTrade_reads_def env_ok_def db1_def trade1_def)

lemma DeclineTrade_db1: "DeclineTrade env_ok db1 1 = (Inr (), db1_declined)"
  by (simp add: DeclineTrade_def decline_pending_row_def env_ok_def db1_declined_def
      db1_def trade1_def)

text \<open>
  Claim C3. The claim does not hold of the code when requests overlap. In the first
  scenario user 2 accepts trade 1; after the accept has read the trade as pending and
  verified the cars, a decline of trade 1 (one autocommitted \<open>UPDATE\<close>) commits: the trade
  is declined, a terminal state. The accept goes on with its local variables, and its
  \<open>UPDATE ... WHERE id = $1\<close>, which unlike the \<open>UPDATE\<close>s of \<open>DeclineTrade\<close> and
  \<open>declineTradesWithCars\<close> has no \<open>AND status = 'pending'\<close>, sets the declined trade to
  accepted and its \<open>traded_at\<close>; the cars change owner and the accept returns success.
\<close>

theorem declined_trade_accepted_by_interleaved_accept:
  "DeclineTrade env_ok db1 1 = (Inr (), db1_declined)
   \<and> status (trades db1_declined ! 0) = ''declined''
   \<and> fst (AcceptTrade_interleaved env_ok db1 2 1 (OpDeclineTrade env_ok 1)) = Inr ()
   \<and> trades (snd (AcceptTrade_interleaved env_ok db1 2 1 (OpDeclineTrade env_ok 1)))
        = [trade1_accepted]
   \<and> status trade1_accepted = ''accepted''
   \<and> user_cars (snd (AcceptTrade_interleaved env_ok db1 2 1 (OpDeclineTrade env_ok 1))) 1 = Some 2
   \<and> user_cars (snd (AcceptTrade_interleaved env_ok db1 2 1 (OpDeclineTrade env_ok 1))) 4 = Some 1"
proof -
  have il: "AcceptTrade_interleaved env_ok db1 2 1 (OpDeclineTrade env_ok 1)
              = AcceptTrade_writes env_ok db1_declined trade1 1"
    by (simp add: AcceptTrade_interleaved_def AcceptTrade_interleaved_reads_db1 DeclineTrade_db1)
  have w: "fst (AcceptTrade_writes env_ok db1_declined trade1 1) = Inr ()"
    "trades (snd (AcceptTrade_writes env_ok db1_declined trade1 1)) = [trade1_accepted]"
    "user_cars (snd (AcceptTrade_writes env_ok db1_declined trade1 1)) 1 = Some 2"
    "user_cars (snd (AcceptTrade_writes env_ok db1_declined trade1 1)) 4 = Some 1"
    by (simp_all add: AcceptTrade_writes_def updateCarOwnerships_def declineTradesWithCars_def
        CreateFeed_def accept_row_def decline_row_def references_cars_def env_ok_def
        db1_declined_def db1_def trade1_accepted_def trade1_def)
  have "status (trades db1_declined ! 0) = ''declined''" "status trade1_accepted = ''accepted''"
    by (simp_all add: db1_declined_def trade1_accepted_def)
  with il w DeclineTrade_db1 show ?thesis
    by simp
qed

text \<open>
  The same window lets the conflict resolver and a second accept collide. In the third
  scenario user 3 accepts trade 2 and has read it as pending when user 2's accept of
  trade 1 commits, which moves car 1 to user 2 and declines trade 2. The accept of
  trade 2 then moves car 1 on to user 3 and sets the declined trade 2 to accepted.
\<close>

lemma auto_declined_trade_accepted_by_interleaved_accept:
  "status (trades (apply_operation (OpAcceptTrade env_ok 2 1) db3) ! 1) = ''declined''
   \<and> user_cars (apply_operation (OpAcceptTrade env_ok 2 1) db3) 1 = Some 2
   \<and> fst (AcceptTrade_interleaved env_ok db3 3 2 (OpAcceptTrade env_ok 2 1)) = Inr ()
   \<and> status (trades (snd (AcceptTrade_interleaved env_ok db3 3 2 (OpAcceptTrade env_ok 2 1))) ! 1)
        = ''accepted''
   \<and> user_cars (snd (AcceptTrade_interleaved env_ok db3 3 2 (OpAcceptTrade env_ok 2 1))) 1 = Some 3"
  by (simp add: AcceptTrade_interleaved_def AcceptTrade_reads_def AcceptTrade_writes_def
      op_defs env_ok_def db3_def db1_def trade1_def trade2_def trade3_def)


section \<open>Idempotence of trade creation\<close>

lemma offers_filter_map:
  assumes "\<And>x. offer_of (f x) = offer_of x"
    and "\<And>x. status (f x) = ''pending'' \<Longrightarrow> status x = ''pending''"
  shows "offer_of ` set (filter (\<lambda>t. status t = ''pending'') (map f ts))
          \<subseteq> offer_of ` set (filter (\<lambda>t. status t = ''pending'') ts)"
  using assms by (auto simp: image_iff)

lemma pending_unique_map:
  assumes "\<And>x. offer_of (f x) = offer_of x"
    and "\<And>x. status (f x) = ''pending'' \<Longrightarrow> status x = ''pending''"
    and "pending_unique ts"
  shows "pending_unique (map f ts)"
  using assms(3)
proof (induction ts)
  case Nil
  then show ?case by (simp add: pending_unique_def)
next
  case (Cons x xs)
  then have IH: "pending_unique (map f xs)"
    by (auto simp: pending_unique_def split: if_splits)
  show ?case
  proof (cases "status (f x) = ''pending''")
    case True
    then have "status x = ''pending''" by (rule assms(2))
    with Cons.prems have "offer_of x \<notin> offer_of ` set (filter (\<lambda>t. status t = ''pending'') xs)"
      by (simp add: pending_unique_def)
    with offers_filter_map[of f xs, OF assms(1,2)]
    have "offer_of (f x) \<notin> offer_of ` set (filter (\<lambda>t. status t = ''pending'') (map f xs))"
      by (auto simp: assms(1))
    with True IH show ?thesis
      by (simp add: pending_unique_def)
  next
    case False
    with IH show ?thesis by (simp add: pending_unique_def)
  qed
qed

lemma offer_of_rows [simp]:
  "offer_of (accept_row k t r) = offer_of r"
  "offer_of (decline_row k cs r) = offer_of r"
  "offer_of (decline_pending_row k r) = offer_of r"
  by (simp_all add: offer_of_def accept_row_def decline_row_def decline_pending_row_def)

lemma pending_unique_accept_row:
  assumes "pending_unique ts"
  shows "pending_unique (map (accept_row k t) ts)"
  by (rule pending_unique_map[OF _ _ assms]) (auto simp: accept_row_def offer_of_def split: if_splits)

lemma pending_unique_decline_row:
  assumes "pending_unique ts"
  shows "pending_unique (map (decline_row k cs) ts)"
  by (rule pending_unique_map[OF _ _ assms]) (auto simp: decline_row_def offer_of_def split: if_splits)

lemma pending_unique_decline_pending_row:
  assumes "pending_unique ts"
  shows "pending_unique (map (decline_pending_row k) ts)"
  by (rule pending_unique_map[OF _ _ assms]) (auto simp: decline_pending_row_def offer_of_def split: if_splits)

lemma same_pending_offer:
  "same_pending f t fc tc r \<longleftrightarrow> status r = ''pending'' \<and> offer_of r = (f, t, fc, tc)"
  by (auto simp: same_pending_def offer_of_def)

lemma pending_unique_insert:
  assumes "pending_unique (trades d)" "existingTradeCount d f t fc tc = 0"
  shows "pending_unique (trades (insert_trade e d f t fc tc))"
proof -
  have "(f, t, fc, tc) \<notin> offer_of ` set (filter (\<lambda>t. status t = ''pending'') (trades d))"
    using assms(2) by (auto simp: existingTradeCount_def filter_empty_conv same_pending_offer)
  then show ?thesis
    using assms(1) by (simp add: pending_unique_def insert_trade_def offer_of_def)
qed

lemma CreateTrade_cases:
  "snd (CreateTrade e d f t fc tc) = d
   \<or> (existingTradeCount d f t fc tc = 0
       \<and> snd (CreateTrade e d f t fc tc) = insert_trade e d f t fc tc)"
  by (auto simp: CreateTrade_def split: sum.splits)

lemma pending_unique_step:
  assumes "pending_unique (trades d)"
  shows "pending_unique (trades (apply_operation oper d))"
proof (cases oper)
  case (OpCreateTrade e f t fc tc)
  from CreateTrade_cases[of e d f t fc tc] assms show ?thesis
    by (auto simp: OpCreateTrade pending_unique_insert)
next
  case (OpAcceptTrade e u k)
  from AcceptTrade_trades[of e d u k] assms show ?thesis
    by (auto simp: OpAcceptTrade simp del: map_map
        intro!: pending_unique_decline_row pending_unique_accept_row)
next
  case (OpDeclineTrade e k)
  from DeclineTrade_trades[of e d k] assms show ?thesis
    by (auto simp: OpDeclineTrade intro!: pending_unique_decline_pending_row)
next
  case (OpDeclineTradesWithCars qfail k cs)
  from assms show ?thesis
    by (auto simp: OpDeclineTradesWithCars split: sum.splits
        dest!: declineTradesWithCars_map intro!: pending_unique_decline_row)
qed

lemma pending_unique_run_serial:
  "pending_unique (trades d) \<Longrightarrow> pending_unique (trades (run_serial opers d))"
  by (induction opers arbitrary: d) (auto intro: pending_unique_step)

lemma pending_unique_count:
  assumes "pending_unique ts"
  shows "length (filter (same_pending f t fc tc) ts) \<le> 1"
proof -
  have eq: "filter (same_pending f t fc tc) ts
        = filter (\<lambda>r. offer_of r = (f, t, fc, tc)) (filter (\<lambda>t. status t = ''pending'') ts)"
    by (auto simp: same_pending_offer intro!: filter_cong)
  have "length (filter (\<lambda>r. offer_of r = k) xs) \<le> 1" if "distinct (map offer_of xs)" for xs k
    using that by (induction xs) (auto simp: filter_empty_conv image_iff)
  from this[of "filter (\<lambda>t. status t = ''pending'') ts"] assms show ?thesis
    by (simp add: eq pending_unique_def)
qed

lemma pending_unique_reachable:
  "trades d = [] \<Longrightarrow> pending_unique (trades (run_serial opers d))"
  by (rule pending_unique_run_serial) (simp add: pending_unique_def)

text \<open>
  Claim C4. Let no two pending rows carry the same offer (this holds in every state
  that operations run one after another reach from an empty table,
  \<open>pending_unique_reachable\<close>) and let a pending row with
  exactly the parties and the two lists of the call exist (the lists compared in order).
  Then \<open>CreateTrade\<close> leaves the whole database as it is, whatever fails, and exactly
  one pending row with that offer exists afterwards; and the call returns success when
  both parties still pass the subscription check and neither the begin, the count query
  nor the commit fails.
\<close>

theorem CreateTrade_idempotent:
  assumes uniq: "pending_unique (trades d)"
    and ex: "list_ex (same_pending userIDFrom userIDTo userFromCarIDs userToCarIDs) (trades d)"
  shows "snd (CreateTrade e d userIDFrom userIDTo userFromCarIDs userToCarIDs) = d
    \<and> existingTradeCount
         (snd (CreateTrade e d userIDFrom userIDTo userFromCarIDs userToCarIDs))
         userIDFrom userIDTo userFromCarIDs userToCarIDs = 1
    \<and> (HasActiveSubscription (fails e CheckSubscriptionFrom) d (now e) userIDFrom = Inr True
        \<and> HasActiveSubscription (fails e CheckSubscriptionTo) d (now e) userIDTo = Inr True
        \<and> \<not> fails e BeginTx \<and> \<not> fails e CountExistingTrades \<and> \<not> fails e CommitTx
        \<longrightarrow> fst (CreateTrade e d userIDFrom userIDTo userFromCarIDs userToCarIDs) = Inr ())"
proof -
  have pos: "existingTradeCount d userIDFrom userIDTo userFromCarIDs userToCarIDs > 0"
    using ex by (auto simp: existingTradeCount_def list_ex_iff filter_empty_conv)
  have le: "existingTradeCount d userIDFrom userIDTo userFromCarIDs userToCarIDs \<le> 1"
    unfolding existingTradeCount_def using uniq by (rule pending_unique_count)
  have same: "snd (CreateTrade e d userIDFrom userIDTo userFromCarIDs userToCarIDs) = d"
    using CreateTrade_cases[of e d userIDFrom userIDTo userFromCarIDs userToCarIDs] pos
    by auto
  have "fst (CreateTrade e d userIDFrom userIDTo userFromCarIDs userToCarIDs) = Inr ()"
    if "HasActiveSubscription (fails e CheckSubscriptionFrom) d (now e) userIDFrom = Inr True"
      "HasActiveSubscription (fails e CheckSubscriptionTo) d (now e) userIDTo = Inr True"
      "\<not> fails e BeginTx" "\<not> fails e CountExistingTrades" "\<not> fails e CommitTx"
    using that pos by (simp add: CreateTrade_def)
  with same pos le show ?thesis by simp
qed

theorem CreateTrade_idempotent_witness:
  "CreateTrade env_ok db1 1 2 [1, 2, 3] [4, 5] = (Inr (), db1)
   \<and> existingTradeCount (snd (CreateTrade env_ok db1 1 2 [1, 2, 3] [4, 5])) 1 2 [1, 2, 3] [4, 5] = 1"
proof -
  have 1: "pending_unique (trades db1)"
    by (simp add: pending_unique_def db1_def)
  have 2: "list_ex (same_pending 1 2 [1, 2, 3] [4, 5]) (trades db1)"
    by (simp add: db1_def trade1_def same_pending_def)
  have 3: "HasActiveSubscription (fails env_ok CheckSubscriptionFrom) db1 (now env_ok) 1 = Inr True"
    by (simp add: HasActiveSubscription_def env_ok_def db1_def active_sub_def)
  have 4: "HasActiveSubscription (fails env_ok CheckSubscriptionTo) db1 (now env_ok) 2 = Inr True"
    by (simp add: HasActiveSubscription_def env_ok_def db1_def active_sub_def)
  have 5: "\<not> fails env_ok BeginTx" "\<not> fails env_ok CountExistingTrades" "\<not> fails env_ok CommitTx"
    by (simp_all add: env_ok_def)
  from CreateTrade_idempotent[OF 1 2, of env_ok] 3 4 5
  have "snd (CreateTrade env_ok db1 1 2 [1, 2, 3] [4, 5]) = db1"
    and "existingTradeCount (snd (CreateTrade env_ok db1 1 2 [1, 2, 3] [4, 5])) 1 2 [1, 2, 3] [4, 5] = 1"
    and "fst (CreateTrade env_ok db1 1 2 [1, 2, 3] [4, 5]) = Inr ()"
    by blast+
  then show ?thesis
    by (simp add: prod_eq_iff)
qed


section \<open>The checks of an accept\<close>

lemma verifyCarOwnership_nofail:
  assumes "\<And>i. \<not> qfails i"
  shows "verifyCarOwnership qfails cars userID carIDs =
     (case find (\<lambda>c. cars c \<noteq> Some userID) carIDs of
        None \<Rightarrow> Inr ()
      | Some c \<Rightarrow> Inl (UserDoesNotOwnCar userID c))"
  using assms by (induction carIDs arbitrary: qfails) auto

lemma AcceptTrade_checks:
  assumes "find (\<lambda>t. trade_id t = tradeID) (trades d) = Some t"
    and "userID = user_id_to t"
    and "\<not> fails e BeginTx" "\<not> fails e SelectTradeDetails"
    and "\<And>s i. \<not> fails e (VerifyOwnershipQuery s i)"
  shows "find (\<lambda>c. user_cars d c \<noteq> Some (user_id_from t)) (user_from_user_car_ids t) = Some c \<Longrightarrow>
      AcceptTrade e d userID tradeID =
        (Inl (FailedToVerifyFromUserCarOwnership (UserDoesNotOwnCar (user_id_from t) c)), d)"
    and "find (\<lambda>c. user_cars d c \<noteq> Some (user_id_from t)) (user_from_user_car_ids t) = None \<Longrightarrow>
      find (\<lambda>c. user_cars d c \<noteq> Some (user_id_to t)) (user_to_user_car_ids t) = Some c \<Longrightarrow>
      AcceptTrade e d userID tradeID =
        (Inl (FailedToVerifyToUserCarOwnership (UserDoesNotOwnCar (user_id_to t) c)), d)"
    and "find (\<lambda>c. user_cars d c \<noteq> Some (user_id_from t)) (user_from_user_car_ids t) = None \<Longrightarrow>
      find (\<lambda>c. user_cars d c \<noteq> Some (user_id_to t)) (user_to_user_car_ids t) = None \<Longrightarrow>
      status t \<noteq> ''pending'' \<Longrightarrow>
      AcceptTrade e d userID tradeID = (Inl TradeIsNotPending, d)"
  using assms by (simp_all add: AcceptTrade_def verifyCarOwnership_nofail)

text \<open>
  Claim C6. The recipient calls \<open>AcceptTrade\<close> on a pending trade, and some car of
  \<open>user_from_user_car_ids\<close> is not owned by \<open>user_id_from\<close> or some car of
  \<open>user_to_user_car_ids\<close> is not owned by \<open>user_id_to\<close>. When the begin, the select
  of the trade and the ownership queries do not fail, the call returns the error
  \<open>user u does not own car c\<close> (wrapped by \<open>failed to verify from/to user car ownership\<close>)
  for such a car \<open>c\<close>, and the database is unchanged: no car changes owner and the trade
  stays pending.
\<close>

theorem AcceptTrade_not_owned:
  assumes t: "find (\<lambda>t. trade_id t = tradeID) (trades d) = Some t"
    and pend: "status t = ''pending''"
    and rec: "userID = user_id_to t"
    and nofail: "\<not> fails e BeginTx" "\<not> fails e SelectTradeDetails"
      "\<And>s i. \<not> fails e (VerifyOwnershipQuery s i)"
    and drift: "(\<exists>c \<in> set (user_from_user_car_ids t). user_cars d c \<noteq> Some (user_id_from t))
              \<or> (\<exists>c \<in> set (user_to_user_car_ids t). user_cars d c \<noteq> Some (user_id_to t))"
  shows "snd (AcceptTrade e d userID tradeID) = d
    \<and> (\<exists>c. (c \<in> set (user_from_user_car_ids t) \<and> user_cars d c \<noteq> Some (user_id_from t)
             \<and> fst (AcceptTrade e d userID tradeID)
                 = Inl (FailedToVerifyFromUserCarOwnership (UserDoesNotOwnCar (user_id_from t) c)))
          \<or> (c \<in> set (user_to_user_car_ids t) \<and> user_cars d c \<noteq> Some (user_id_to t)
             \<and> fst (AcceptTrade e d userID tradeID)
                 = Inl (FailedToVerifyToUserCarOwnership (UserDoesNotOwnCar (user_id_to t) c))))"
proof (cases "find (\<lambda>c. user_cars d c \<noteq> Some (user_id_from t)) (user_from_user_car_ids t)")
  case (Some c)
  then have "c \<in> set (user_from_user_car_ids t)" "user_cars d c \<noteq> Some (user_id_from t)"
    by (auto simp: find_Some_iff)
  with AcceptTrade_checks(1)[OF t rec nofail Some] show ?thesis
    by auto
next
  case None
  with drift have "find (\<lambda>c. user_cars d c \<noteq> Some (user_id_to t)) (user_to_user_car_ids t) \<noteq> None"
    by (auto simp: find_None_iff)
  then obtain c where c: "find (\<lambda>c. user_cars d c \<noteq> Some (user_id_to t)) (user_to_user_car_ids t) = Some c"
    by auto
  then have "c \<in> set (user_to_user_car_ids t)" "user_cars d c \<noteq> Some (user_id_to t)"
    by (auto simp: find_Some_iff)
  with AcceptTrade_checks(2)[OF t rec nofail None c] show ?thesis
    by auto
qed

theorem AcceptTrade_not_owned_witness:
  "AcceptTrade env_ok db1_sold 2 1
     = (Inl (FailedToVerifyFromUserCarOwnership (UserDoesNotOwnCar 1 1)), db1_sold)"
proof -
  have t: "find (\<lambda>t. trade_id t = 1) (trades db1_sold) = Some trade1"
    by (simp add: db1_sold_def db1_def trade1_def)
  have pend: "status trade1 = ''pending''" and rec: "2 = user_id_to trade1"
    by (simp_all add: trade1_def)
  have nofail: "\<not> fails env_ok BeginTx" "\<not> fails env_ok SelectTradeDetails"
      "\<And>s i. \<not> fails env_ok (VerifyOwnershipQuery s i)"
    by (simp_all add: env_ok_def)
  have drift: "(\<exists>c \<in> set (user_from_user_car_ids trade1). user_cars db1_sold c \<noteq> Some (user_id_from trade1))
              \<or> (\<exists>c \<in> set (user_to_user_car_ids trade1). user_cars db1_sold c \<noteq> Some (user_id_to trade1))"
    by (simp add: db1_sold_def db1_def trade1_def)
  from AcceptTrade_not_owned[OF t pend rec nofail drift]
  show ?thesis
    by (auto simp: prod_eq_iff db1_sold_def db1_def trade1_def)
qed

lemma AcceptTrade_terminal_fails:
  assumes "find (\<lambda>t. trade_id t = tradeID) (trades d) = Some t"
    and "status t \<noteq> ''pending''"
  shows "\<exists>err. AcceptTrade e d userID tradeID = (Inl err, d)"
  using assms by (auto simp: AcceptTrade_def split: sum.splits)

text \<open>
  Claim C5, as the code has it. \<open>AcceptTrade\<close> verifies the ownership of both lists
  before it looks at the status. So the recipient's accept of an accepted or declined
  trade always fails and leaves the database unchanged, but the error is
  \<open>trade is not pending\<close> only when both ownership checks pass; when a car of the
  trade is not with the party that offered it (as after the trade's own acceptance, which
  moved the cars), the error is that of the ownership check.
\<close>

theorem AcceptTrade_terminal:
  assumes t: "find (\<lambda>t. trade_id t = tradeID) (trades d) = Some t"
    and fin: "status t \<noteq> ''pending''"
    and rec: "userID = user_id_to t"
  shows "(\<exists>err. AcceptTrade e d userID tradeID = (Inl err, d))
    \<and> (\<not> fails e BeginTx \<and> \<not> fails e SelectTradeDetails
        \<and> (\<forall>s i. \<not> fails e (VerifyOwnershipQuery s i)) \<longrightarrow>
        fst (AcceptTrade e d userID tradeID) =
          (case find (\<lambda>c. user_cars d c \<noteq> Some (user_id_from t)) (user_from_user_car_ids t) of
             Some c \<Rightarrow> Inl (FailedToVerifyFromUserCarOwnership (UserDoesNotOwnCar (user_id_from t) c))
           | None \<Rightarrow>
             (case find (\<lambda>c. user_cars d c \<noteq> Some (user_id_to t)) (user_to_user_car_ids t) of
                Some c \<Rightarrow> Inl (FailedToVerifyToUserCarOwnership (UserDoesNotOwnCar (user_id_to t) c))
              | None \<Rightarrow> Inl TradeIsNotPending)))"
proof -
  have "fst (AcceptTrade e d userID tradeID) =
          (case find (\<lambda>c. user_cars d c \<noteq> Some (user_id_from t)) (user_from_user_car_ids t) of
             Some c \<Rightarrow> Inl (FailedToVerifyFromUserCarOwnership (UserDoesNotOwnCar (user_id_from t) c))
           | None \<Rightarrow>
             (case find (\<lambda>c. user_cars d c \<noteq> Some (user_id_to t)) (user_to_user_car_ids t) of
                Some c \<Rightarrow> Inl (FailedToVerifyToUserCarOwnership (UserDoesNotOwnCar (user_id_to t) c))
              | None \<Rightarrow> Inl TradeIsNotPending))"
    if "\<not> fails e BeginTx" "\<not> fails e SelectTradeDetails" "\<And>s i. \<not> fails e (VerifyOwnershipQuery s i)"
    using AcceptTrade_checks[OF t rec that] fin
    by (auto split: option.splits)
  with AcceptTrade_terminal_fails[OF t fin] show ?thesis
    by blast
qed

text \<open>
  The claim as stated (the error is always \<open>trade is not pending\<close>) fails on the second
  accept of the first scenario: the cars 1, 2, 3 are with user 2 by then.
\<close>

theorem AcceptTrade_terminal_counterexample:
  "fst (AcceptTrade env_ok db1_accepted 2 1)
     = Inl (FailedToVerifyFromUserCarOwnership (UserDoesNotOwnCar 1 1))
   \<and> fst (AcceptTrade env_ok db1_accepted 2 1) \<noteq> Inl TradeIsNotPending"
  by (simp add: op_defs env_ok_def db1_accepted_def db1_def trade1_accepted_def trade1_def)

theorem AcceptTrade_terminal_witness:
  "AcceptTrade env_ok db1_declined 2 1 = (Inl TradeIsNotPending, db1_declined)"
proof -
  have t: "find (\<lambda>t. trade_id t = 1) (trades db1_declined) = Some (trade1\<lparr>status := ''declined''\<rparr>)"
    by (simp add: db1_declined_def db1_def trade1_def)
  have fin: "status (trade1\<lparr>status := ''declined''\<rparr>) \<noteq> ''pending''"
    and rec: "2 = user_id_to (trade1\<lparr>status := ''declined''\<rparr>)"
    by (simp_all add: trade1_def)
  from AcceptTrade_terminal[OF t fin rec, of env_ok]
  show ?thesis
    by (auto simp: prod_eq_iff env_ok_def db1_declined_def db1_def trade1_def)
qed

section \<open>The feed entry of an accept\<close>

text \<open>Whenever the insert into \<open>feed\<close> fails, \<open>AcceptTrade\<close> returns an error and
  the database is unchanged, in every state.\<close>

lemma AcceptTrade_fails_with_feed:
  "fails e InsertFeed \<Longrightarrow> \<exists>err. AcceptTrade e d userID tradeID = (Inl err, d)"
  by (auto simp: AcceptTrade_def CreateFeed_def split: sum.splits option.splits)

text \<open>
  Claim C7. \<open>AcceptTrade\<close> calls \<open>feed.CreateFeed\<close> before \<open>tx.Commit\<close> and returns
  its error. In the first scenario with a failing insert into \<open>feed\<close> the call returns
  \<open>failed to create feed entry\<close> and the database is as before: the trade is still
  pending and no car has changed owner. The claim says the acceptance commits.
\<close>

theorem AcceptTrade_feed_failure_rolls_back:
  "AcceptTrade env_feed_fails db1 2 1 = (Inl (FailedToCreateFeedEntry CreatingFeedItem), db1)"
  by (simp add: op_defs env_feed_fails_def db1_def trade1_def)

section \<open>Declining\<close>

text \<open>
  Claim C9. \<open>DeclineTrade\<close> has no parameter for the caller, and the handler passes only
  the trade id. For every caller the middleware let through (a party of the trade or
  not), a decline of a pending trade answers 200 and the row is declined, provided the
  \<open>UPDATE\<close> itself does not fail.
\<close>

theorem decline_has_no_authorization:
  assumes nofail: "\<not> fails e DeclineTradeExec"
    and i: "i < length (trades d)"
    and id: "trade_id (trades d ! i) = tradeID"
    and pend: "status (trades d ! i) = ''pending''"
  shows "HandleTradeRequestResponse e d (Some caller) (Some \<lparr>TradeID = tradeID, Response = ''decline''\<rparr>)
           = (200, snd (DeclineTrade e d tradeID))
    \<and> DeclineTrade e d tradeID = (Inr (), d\<lparr>trades := map (decline_pending_row tradeID) (trades d)\<rparr>)
    \<and> trades (snd (DeclineTrade e d tradeID)) ! i = (trades d ! i)\<lparr>status := ''declined''\<rparr>"
proof -
  have "trades d ! i \<in> set (trades d)"
    using i by simp
  then have "filter (\<lambda>t. trade_id t = tradeID \<and> status t = ''pending'') (trades d) \<noteq> []"
    using id pend by (auto simp: filter_empty_conv)
  then have dec: "DeclineTrade e d tradeID = (Inr (), d\<lparr>trades := map (decline_pending_row tradeID) (trades d)\<rparr>)"
    using nofail by (simp add: DeclineTrade_def)
  then show ?thesis
    using i id pend by (simp add: HandleTradeRequestResponse_def decline_pending_row_def)
qed

theorem decline_has_no_authorization_witness:
  "HandleTradeRequestResponse env_ok db1 (Some 99) (Some \<lparr>TradeID = 1, Response = ''decline''\<rparr>)
     = (200, db1\<lparr>trades := [trade1\<lparr>status := ''declined''\<rparr>]\<rparr>)
   \<and> 99 \<noteq> user_id_from trade1 \<and> 99 \<noteq> user_id_to trade1"
proof -
  have 1: "\<not> fails env_ok DeclineTradeExec" by (simp add: env_ok_def)
  have 2: "0 < length (trades db1)" "trade_id (trades db1 ! 0) = 1" "status (trades db1 ! 0) = ''pending''"
    by (simp_all add: db1_def trade1_def)
  from decline_has_no_authorization[OF 1 2, of 99]
  show ?thesis
    by (simp add: db1_def trade1_def decline_pending_row_def)
qed

section \<open>Trades that offer nothing\<close>

text \<open>
  Claim C10. \<open>verifyCarOwnership\<close> of an empty list succeeds without a query. So
  \<open>CreateTrade\<close> with two empty lists, by two users with active subscriptions and with no
  identical pending trade, inserts a pending row with two empty lists (no call of the
  store failing), and so does the handler, which passes the lists of the request on
  unchecked.
\<close>

theorem empty_trade_is_created:
  assumes "HasActiveSubscription (fails e CheckSubscriptionFrom) d (now e) userIDFrom = Inr True"
    and "HasActiveSubscription (fails e CheckSubscriptionTo) d (now e) userIDTo = Inr True"
    and "\<not> fails e BeginTx" "\<not> fails e CountExistingTrades" "\<not> fails e InsertTrade" "\<not> fails e CommitTx"
    and "existingTradeCount d userIDFrom userIDTo [] [] = 0"
  shows "verifyCarOwnership qfails cars userID [] = Inr ()
    \<and> CreateTrade e d userIDFrom userIDTo [] [] = (Inr (), insert_trade e d userIDFrom userIDTo [] [])
    \<and> HandleCreateTrade e d (Some userIDFrom)
          (Some \<lparr>UserIDTo = userIDTo, UserFromCarIDs = [], UserToCarIDs = []\<rparr>)
        = (200, insert_trade e d userIDFrom userIDTo [] [])
    \<and> trades (insert_trade e d userIDFrom userIDTo [] [])
        = trades d @ [\<lparr>trade_id = trades_id_seq d, user_id_from = userIDFrom, user_id_to = userIDTo,
            status = ''pending'', user_from_user_car_ids = [],
            user_to_user_car_ids = [], traded_at = None, created_at = now e\<rparr>]"
  using assms by (simp add: CreateTrade_def HandleCreateTrade_def insert_trade_def)

theorem empty_trade_is_created_witness:
  "CreateTrade env_ok db_empty 1 2 [] []
     = (Inr (), db_empty\<lparr>trades := [\<lparr>trade_id = 1, user_id_from = 1, user_id_to = 2,
            status = ''pending'', user_from_user_car_ids = [],
            user_to_user_car_ids = [], traded_at = None, created_at = 100\<rparr>], trades_id_seq := 2\<rparr>)"
proof -
  have 1: "HasActiveSubscription (fails env_ok CheckSubscriptionFrom) db_empty (now env_ok) 1 = Inr True"
    "HasActiveSubscription (fails env_ok CheckSubscriptionTo) db_empty (now env_ok) 2 = Inr True"
    by (simp_all add: HasActiveSubscription_def env_ok_def db_empty_def active_sub_def)
  have 2: "\<not> fails env_ok BeginTx" "\<not> fails env_ok CountExistingTrades"
    "\<not> fails env_ok InsertTrade" "\<not> fails env_ok CommitTx"
    by (simp_all add: env_ok_def)
  have 3: "existingTradeCount db_empty 1 2 [] [] = 0"
    by (simp add: existingTradeCount_def db_empty_def)
  from empty_trade_is_created[OF 1 2 3]
  show ?thesis
    by (simp add: insert_trade_def db_empty_def env_ok_def)
qed

section \<open>The trade history\<close>

lemma scan_rows_nofail: "(\<And>i. \<not> qfails i) \<Longrightarrow> scan_rows qfails rows = Inr rows"
  by (induction rows arbitrary: qfails) auto

lemma wrap64_id: "0 \<le> x \<Longrightarrow> x < 2 ^ 63 \<Longrightarrow> wrap64 x = x"
  by (simp add: wrap64_def)

text \<open>
  Claim C8, as the code has it. For a page from 1 on, a page size from 0 on and an offset
  \<open>(page - 1) * pageSize\<close> below \<open>2^63\<close>, and no call failing, \<open>GetUserTrades\<close> returns a
  slice (at that offset, of at most \<open>pageSize\<close> rows) of a list \<open>xs\<close> that holds exactly
  the trades in which the user is \<open>user_id_from\<close> or \<open>user_id_to\<close>, ordered by
  \<open>created_at\<close> descending, together with the number of these trades. The order among
  trades with equal \<open>created_at\<close> is not part of the statement: the query has no second
  sort key.
\<close>

theorem GetUserTrades_page:
  assumes nofail: "\<not> fails e CountUserTrades" "\<not> fails e SelectUserTrades"
      "\<And>i. \<not> fails e (ScanTradeRow i)" "\<not> fails e IterateTradeRows"
    and page: "1 \<le> page" and size: "0 \<le> pageSize"
    and range: "(page - 1) * pageSize < 2 ^ 63"
  shows "\<exists>xs. GetUserTrades e d userID page pageSize
             = Inr (take (nat pageSize) (drop (nat ((page - 1) * pageSize)) xs), int (length xs))
          \<and> mset xs = filter_mset (involves userID) (mset (trades d))
          \<and> sorted_wrt (\<lambda>a b. created_at a \<ge> created_at b) xs"
proof -
  let ?xs = "sort_key (\<lambda>t. - created_at t) (filter (involves userID) (trades d))"
  have off: "wrap64 ((page - 1) * pageSize) = (page - 1) * pageSize"
    using page size range by (intro wrap64_id) simp_all
  have "0 \<le> (page - 1) * pageSize"
    using page size by simp
  then have "GetUserTrades e d userID page pageSize
             = Inr (take (nat pageSize) (drop (nat ((page - 1) * pageSize)) ?xs), int (length ?xs))"
    using nofail size by (simp add: GetUserTrades_def off scan_rows_nofail Let_def)
  moreover have "mset ?xs = filter_mset (involves userID) (mset (trades d))"
    by simp
  moreover have "sorted (map (\<lambda>t. - created_at t) ?xs)"
    by (rule sorted_sort_key)
  then have "sorted_wrt (\<lambda>a b. created_at a \<ge> created_at b) ?xs"
    by (simp add: sorted_map)
  ultimately show ?thesis by blast
qed

text \<open>
  The claim as stated (ties broken by the trade id descending) fails for two trades
  created at the same instant: the query returns them in the order of the table.
\<close>

theorem GetUserTrades_ties_counterexample:
  "GetUserTrades env_ok db_ties 1 1 10 = Inr ([trade_a, trade_b], 2)
   \<and> GetUserTrades_spec db_ties 1 1 10 = ([trade_b, trade_a], 2)
   \<and> GetUserTrades env_ok db_ties 1 1 10 \<noteq> Inr (GetUserTrades_spec db_ties 1 1 10)"
  by (simp add: GetUserTrades_def GetUserTrades_spec_def env_ok_def db_ties_def db1_def
      trade_a_def trade_b_def involves_def wrap64_def)

theorem GetUserTrades_page_witness:
  "\<exists>xs. GetUserTrades env_ok db3 2 2 1 = Inr (take (nat 1) (drop (nat ((2 - 1) * 1)) xs), int (length xs))
          \<and> mset xs = filter_mset (involves 2) (mset (trades db3))
          \<and> sorted_wrt (\<lambda>a b. created_at a \<ge> created_at b) xs"
proof -
  have nofail: "\<not> fails env_ok CountUserTrades" "\<not> fails env_ok SelectUserTrades"
      "\<And>i. \<not> fails env_ok (ScanTradeRow i)" "\<not> fails env_ok IterateTradeRows"
    by (simp_all add: env_ok_def)
  from GetUserTrades_page[OF nofail, of 2 1 db3 2]
  show ?thesis by simp
qed

text \<open>The second page of size 1 for user 2 in the third scenario, and two calls outside
  the range of the theorem: page 0, and an offset that wraps to 0.\<close>

lemma GetUserTrades_db3: "GetUserTrades env_ok db3 2 2 1 = Inr ([trade1], 2)"
  by (simp add: GetUserTrades_def env_ok_def db3_def db1_def
      trade1_def trade2_def trade3_def involves_def wrap64_def)

lemma GetUserTrades_page_zero: "GetUserTrades env_ok db3 2 0 1 = Inl ErrorIteratingTradeRows"
  by (simp add: GetUserTrades_def env_ok_def wrap64_def)

lemma GetUserTrades_offset_wraps:
  "GetUserTrades env_ok db3 2 4294967297 4294967296 = Inr ([trade3, trade1], 2)"
  by (simp add: GetUserTrades_def env_ok_def db3_def db1_def
      trade1_def trade2_def trade3_def involves_def wrap64_def)

end
